theory Spec2Isabelle
  imports Main "HOL-Library.Word"
begin

section \<open>Strings and positions\<close>

text \<open>
  A \<open>std::string\<close> is a \<open>string\<close> (a list of \<open>char\<close>). The two separator
  characters the source names are the backslash \<open>'\\'\<close> and the forward slash.
\<close>

abbreviation bslash :: char where
  "bslash \<equiv> CHR 0x5C"

abbreviation fslash :: char where
  "fslash \<equiv> CHR ''/''"

text \<open>The argument \<open>"/\\"\<close> of every \<open>find_first_of\<close> call in \<open>DirectoryCreate\<close>.\<close>

abbreviation separators :: string where
  "separators \<equiv> [fslash, bslash]"

text \<open>
  A value of type \<open>size_t\<close> as the search functions of \<open>std::string\<close> return it:
  \<open>npos\<close> is the all-ones value, \<open>Pos p\<close> an index into the string. Every index the
  program computes is at most the string's size, which is below \<open>npos\<close>, so the only
  addition that wraps around is \<open>npos + 1\<close>, and it gives \<open>0\<close>.
\<close>

datatype size_t = npos | Pos nat

text \<open>\<open>pos + 1\<close> on \<open>size_t\<close>: unsigned arithmetic, \<open>npos + 1 = 0\<close>.\<close>

fun plus1 :: "size_t \<Rightarrow> nat" where
  "plus1 npos = 0"
| "plus1 (Pos p) = Suc p"

text \<open>Index of the first character of \<open>s\<close> that occurs in \<open>chars\<close>, counted from the head.\<close>

primrec first_index_of :: "string \<Rightarrow> string \<Rightarrow> nat option" where
  "first_index_of [] chars = None"
| "first_index_of (c # cs) chars =
     (if c \<in> set chars then Some 0 else map_option Suc (first_index_of cs chars))"

text \<open>
  \<open>s.find_first_of(chars, pos)\<close>: the first index at or after \<open>pos\<close> whose character
  is one of \<open>chars\<close>, \<open>npos\<close> when there is none (also when \<open>pos\<close> is past the end).
\<close>

definition find_first_of :: "string \<Rightarrow> string \<Rightarrow> nat \<Rightarrow> size_t" where
  "find_first_of s chars pos =
     (case first_index_of (drop pos s) chars of
        None \<Rightarrow> npos
      | Some i \<Rightarrow> Pos (pos + i))"

text \<open>\<open>s.find_last_of(c)\<close>: the last index whose character is \<open>c\<close>, or \<open>npos\<close>.\<close>

fun find_last_of :: "string \<Rightarrow> char \<Rightarrow> size_t" where
  "find_last_of [] c = npos"
| "find_last_of (x # xs) c =
     (case find_last_of xs c of
        Pos p \<Rightarrow> Pos (Suc p)
      | npos \<Rightarrow> (if x = c then Pos 0 else npos))"

text \<open>
  \<open>s[i]\<close> on a \<open>const std::string\<close>: the character at \<open>i\<close>, and the null character
  at \<open>i = s.size()\<close>. The source reads index 1 of a non-empty string, and indices 0 and 1
  of a string longer than 2, so no read is past \<open>s.size()\<close>.
\<close>

definition char_at :: "string \<Rightarrow> nat \<Rightarrow> char" where
  "char_at s i = (if i < length s then s ! i else CHR 0x00)"

text \<open>
  \<open>std::string(s, 0, n)\<close>: the first \<open>n\<close> characters of \<open>s\<close>, all of \<open>s\<close> when
  \<open>n\<close> is \<open>npos\<close>.
\<close>

fun substr0 :: "string \<Rightarrow> size_t \<Rightarrow> string" where
  "substr0 s npos = s"
| "substr0 s (Pos n) = take n s"

section \<open>tools.cpp: FilePathSplit\<close>

text \<open>
  The two output parameters \<open>dir\<close> and \<open>file\<close> are returned as a pair.
  \<open>substr(0, pos + 1)\<close> and \<open>substr(pos + 1)\<close> are within the string, since
  \<open>pos\<close> is an index of it.
\<close>

definition FilePathSplit :: "string \<Rightarrow> string \<times> string" where
  "FilePathSplit filePath =
     (case find_last_of filePath bslash of
        Pos pos \<Rightarrow> (take (pos + 1) filePath, drop (pos + 1) filePath)
      | npos \<Rightarrow> ([], filePath))"

section \<open>tools.cpp: the scan of DirectoryCreate\<close>

text \<open>
  The test at the head of \<open>DirectoryCreate\<close> and of \<open>FileExists\<close> that selects
  the ActiveSync channel.
\<close>

definition activeSync_path :: "string \<Rightarrow> bool" where
  "activeSync_path name \<longleftrightarrow>
     length name > 2 \<and> char_at name 0 = bslash \<and> char_at name 1 \<noteq> bslash"

text \<open>
  One pass over lines 157 to 169 of the loop body: from the position \<open>pos\<close> the loop
  starts an iteration with, the value of \<open>pos\<close> when \<open>subDir\<close> is built.
\<close>

definition DirectoryCreate_find :: "string \<Rightarrow> nat \<Rightarrow> size_t" where
  "DirectoryCreate_find dirName pos =
     (let pos1 = find_first_of dirName separators pos in
      if pos1 = Pos 0 then
        (if char_at dirName 1 = bslash then
           (let pos2 = find_first_of dirName separators 2
            in find_first_of dirName separators (plus1 pos2))
         else find_first_of dirName separators 1)
      else pos1)"

section \<open>The two backends\<close>

text \<open>
  \<open>DWORD\<close> is the 32-bit unsigned type of the Win32 error codes;
  \<open>ERROR_ALREADY_EXISTS\<close> is the constant of that name in the Windows headers.
\<close>

type_synonym DWORD = "32 word"

definition ERROR_ALREADY_EXISTS :: DWORD where
  "ERROR_ALREADY_EXISTS = 183"

text \<open>The exceptions the two source files throw, each with its message.\<close>

datatype exn = runtime_error string | EOperationFailed string

text \<open>
  Everything the two source files call outside themselves, over a state \<open>'w\<close> of the
  outside world (the local file system with the process's working directory, and the
  device behind the ActiveSync channel). Each operation takes the world and returns the
  world after the call. The calls into Windows and the C++ runtime:

  \<^item> \<open>CreateDirectory p\<close> is \<open>::CreateDirectory(p.c_str(), 0)\<close>: \<open>None\<close> when the
    call reports success, \<open>Some e\<close> when it fails and \<open>GetLastError()\<close> is \<open>e\<close>.
  \<^item> \<open>GetCurrentDirectory\<close> gives the string the call leaves in its buffer;
    \<open>SetCurrentDirectory p\<close> is \<open>SetCurrentDirectory(p.c_str())\<close>, whose result the
    source ignores.
  \<^item> \<open>ifstream_open p\<close> is the construction of \<open>std::ifstream(p.c_str())\<close>:
    \<open>None\<close> when the stream is not open afterwards, otherwise the bytes of the file it
    reached, as they are at that time.
  \<^item> \<open>text_mode\<close> is what the C++ runtime does to those bytes on the way through a
    stream that was opened without \<open>std::ios::binary\<close>.
  \<^item> \<open>Convert\<close> is the source's conversion of an error code to a string, declared in
    \<open>tools.h\<close>.
\<close>

text \<open>
  Modelled from the spec: the fields \<open>AS_DirectoryCreate\<close>, \<open>AS_FileExists\<close> and
  \<open>AS_Read\<close>, the three operations of \<open>CActiveSync\<close>, which is declared in
  \<open>activeSync.h\<close> and implemented outside these sources. Each stands for
  \<open>CActiveSync::Instance()\<close> followed by the member call, and has the shape the
  spec gives it: \<open>DirectoryCreate(path) -> ok | error\<close>,
  \<open>FileExists(path) -> bool\<close>, \<open>Read(path) -> bytes | error\<close>. The other fields
  are the calls described above.
\<close>

record 'w env =
  CreateDirectory :: "string \<Rightarrow> 'w \<Rightarrow> DWORD option \<times> 'w"
  GetCurrentDirectory :: "'w \<Rightarrow> string \<times> 'w"
  SetCurrentDirectory :: "string \<Rightarrow> 'w \<Rightarrow> 'w"
  ifstream_open :: "string \<Rightarrow> 'w \<Rightarrow> string option \<times> 'w"
  text_mode :: "string \<Rightarrow> string"
  Convert :: "DWORD \<Rightarrow> string"
  AS_DirectoryCreate :: "string \<Rightarrow> 'w \<Rightarrow> exn option \<times> 'w"
  AS_FileExists :: "string \<Rightarrow> 'w \<Rightarrow> bool \<times> 'w"
  AS_Read :: "string \<Rightarrow> 'w \<Rightarrow> (exn + string) \<times> 'w"

section \<open>tools.cpp: DirectoryCreate\<close>

text \<open>The message of the exception thrown at line 179.\<close>

definition create_failed_msg :: "'w env \<Rightarrow> string \<Rightarrow> DWORD \<Rightarrow> string" where
  "create_failed_msg E subDir error =
     ''Cannot create directory '' @ [CHR 0x27] @ subDir @ [CHR 0x27] @ '' ('' @
     Convert E error @ '')!!!''"

text \<open>
  Lines 172 to 180: the creation of one \<open>subDir\<close> on the backend the flag selects.
  \<open>Inl\<close> is the exception that leaves the function.
\<close>

definition DirectoryCreate_make ::
  "'w env \<Rightarrow> bool \<Rightarrow> string \<Rightarrow> 'w \<Rightarrow> (exn + unit) \<times> 'w" where
  "DirectoryCreate_make E activeSync subDir w =
     (if activeSync then
        (case AS_DirectoryCreate E subDir w of
           (Some e, w') \<Rightarrow> (Inl e, w')
         | (None, w') \<Rightarrow> (Inr (), w'))
      else
        (case CreateDirectory E subDir w of
           (None, w') \<Rightarrow> (Inr (), w')
         | (Some error, w') \<Rightarrow>
             if error \<noteq> ERROR_ALREADY_EXISTS
             then (Inl (EOperationFailed (create_failed_msg E subDir error)), w')
             else (Inr (), w')))"

text \<open>Lines 182 and 183: \<open>if(pos != std::string::npos) pos++\<close>.\<close>

fun next_pos :: "size_t \<Rightarrow> size_t" where
  "next_pos npos = npos"
| "next_pos (Pos p) = Pos (Suc p)"

text \<open>
  One iteration of the loop, entered with \<open>pos = p\<close>: the exception it throws, or the
  value of \<open>pos\<close> it ends with.
\<close>

definition DirectoryCreate_body ::
  "'w env \<Rightarrow> bool \<Rightarrow> string \<Rightarrow> nat \<Rightarrow> 'w \<Rightarrow> (exn + size_t) \<times> 'w" where
  "DirectoryCreate_body E activeSync dirName p w =
     (let pos = DirectoryCreate_find dirName p;
          subDir = substr0 dirName pos
      in case DirectoryCreate_make E activeSync subDir w of
           (Inl e, w') \<Rightarrow> (Inl e, w')
         | (Inr u, w') \<Rightarrow> (Inr (next_pos pos), w'))"

subsection \<open>Where the searches land\<close>

lemma first_index_of_SomeD:
  "first_index_of s chars = Some i \<Longrightarrow>
     i < length s \<and> s ! i \<in> set chars \<and> (\<forall>j<i. s ! j \<notin> set chars)"
proof (induction s arbitrary: i)
  case Nil
  then show ?case by simp
next
  case (Cons c cs)
  show ?case
  proof (cases "c \<in> set chars")
    case True
    with Cons.prems show ?thesis by simp
  next
    case False
    with Cons.prems obtain k where k: "first_index_of cs chars = Some k" "i = Suc k"
      by auto
    from Cons.IH [OF k(1)] have ih:
      "k < length cs" "cs ! k \<in> set chars" "\<forall>j<k. cs ! j \<notin> set chars"
      by simp_all
    have "\<forall>j<Suc k. (c # cs) ! j \<notin> set chars"
    proof (intro allI impI)
      fix j assume "j < Suc k"
      then show "(c # cs) ! j \<notin> set chars"
        using False ih(3) by (cases j) simp_all
    qed
    with ih k show ?thesis by simp
  qed
qed

lemma find_first_of_PosD:
  assumes "find_first_of s chars pos = Pos p"
  shows "pos \<le> p" and "p < length s" and "s ! p \<in> set chars"
    and "\<And>j. pos \<le> j \<Longrightarrow> j < p \<Longrightarrow> s ! j \<notin> set chars"
proof -
  from assms obtain i where i: "first_index_of (drop pos s) chars = Some i" "p = pos + i"
    by (auto simp: find_first_of_def split: option.splits)
  from first_index_of_SomeD [OF i(1)] have d:
    "i < length s - pos" "drop pos s ! i \<in> set chars" "\<forall>j<i. drop pos s ! j \<notin> set chars"
    by simp_all
  show "pos \<le> p" using i(2) by simp
  show "p < length s" using i(2) d(1) by simp
  show "s ! p \<in> set chars" using i(2) d(1) d(2) by simp
  fix j assume j: "pos \<le> j" "j < p"
  then have "j - pos < i" using i(2) by simp
  with d(3) have "drop pos s ! (j - pos) \<notin> set chars" by simp
  moreover have "drop pos s ! (j - pos) = s ! j"
    using j d(1) i(2) by simp
  ultimately show "s ! j \<notin> set chars" by simp
qed

lemma DirectoryCreate_find_PosD:
  assumes "DirectoryCreate_find dirName pos = Pos p"
  shows "pos \<le> p" and "p < length dirName"
proof -
  let ?f = "find_first_of dirName separators"
  have "pos \<le> p \<and> p < length dirName"
  proof (cases "?f pos = Pos 0")
    case True
    then have "pos = 0" using find_first_of_PosD(1) [OF True] by simp
    moreover have "p < length dirName"
    proof (cases "char_at dirName 1 = bslash")
      case True
      with \<open>?f pos = Pos 0\<close> assms have "?f (plus1 (?f 2)) = Pos p"
        by (simp add: DirectoryCreate_find_def)
      then show ?thesis by (rule find_first_of_PosD(2))
    next
      case False
      with \<open>?f pos = Pos 0\<close> assms have "?f 1 = Pos p"
        by (simp add: DirectoryCreate_find_def)
      then show ?thesis by (rule find_first_of_PosD(2))
    qed
    ultimately show ?thesis by simp
  next
    case False
    with assms have "?f pos = Pos p" by (simp add: DirectoryCreate_find_def)
    then show ?thesis using find_first_of_PosD(1,2) by blast
  qed
  then show "pos \<le> p" and "p < length dirName" by simp_all
qed

lemma DirectoryCreate_body_advances:
  assumes "DirectoryCreate_body E activeSync dirName p w = (Inr (Pos q), w')"
  shows "p < q" and "q \<le> length dirName"
proof -
  from assms obtain r where r: "DirectoryCreate_find dirName p = Pos r" "q = Suc r"
    by (cases "DirectoryCreate_find dirName p")
       (auto simp: DirectoryCreate_body_def Let_def split: prod.splits sum.splits)
  from DirectoryCreate_find_PosD [OF r(1)] r(2)
  show "p < q" and "q \<le> length dirName" by simp_all
qed

subsection \<open>The loop and the function\<close>

text \<open>
  The \<open>while\<close> loop of lines 156 to 184, entered with the given \<open>pos\<close>: it ends
  when \<open>pos\<close> is \<open>npos\<close> or when an iteration throws. The measure of its
  termination is the distance of \<open>pos\<close> from the end of \<open>dirName\<close>.
\<close>

function DirectoryCreate_loop ::
  "'w env \<Rightarrow> bool \<Rightarrow> string \<Rightarrow> size_t \<Rightarrow> 'w \<Rightarrow> (exn + unit) \<times> 'w" where
  "DirectoryCreate_loop E activeSync dirName npos w = (Inr (), w)"
| "DirectoryCreate_loop E activeSync dirName (Pos p) w =
     (case DirectoryCreate_body E activeSync dirName p w of
        (Inl e, w') \<Rightarrow> (Inl e, w')
      | (Inr pos, w') \<Rightarrow> DirectoryCreate_loop E activeSync dirName pos w')"
  by pat_completeness auto
termination
proof (relation "measure (\<lambda>(E, activeSync, dirName, pos, w).
         case pos of npos \<Rightarrow> 0 | Pos p \<Rightarrow> Suc (Suc (length dirName) - p))", goal_cases)
  case 1
  show ?case by simp
next
  case (2 E activeSync dirName p w x w' pos)
  then have body: "DirectoryCreate_body E activeSync dirName p w = (Inr pos, w')"
    by simp
  show ?case
  proof (cases pos)
    case npos
    then show ?thesis by simp
  next
    case (Pos q)
    with body DirectoryCreate_body_advances [of E activeSync dirName p w q w']
    show ?thesis by simp
  qed
qed

text \<open>
  The same loop with nothing assumed about its termination: the value is \<open>None\<close>
  when the loop runs forever.
\<close>

partial_function (option) DirectoryCreate_while ::
  "'w env \<Rightarrow> bool \<Rightarrow> string \<Rightarrow> size_t \<Rightarrow> 'w \<Rightarrow> ((exn + unit) \<times> 'w) option" where
  "DirectoryCreate_while E activeSync dirName pos w =
     (case pos of
        npos \<Rightarrow> Some (Inr (), w)
      | Pos p \<Rightarrow>
          (case DirectoryCreate_body E activeSync dirName p w of
             (Inl e, w') \<Rightarrow> Some (Inl e, w')
           | (Inr pos', w') \<Rightarrow> DirectoryCreate_while E activeSync dirName pos' w'))"

text \<open>
  \<open>DirectoryCreate\<close>: the flag, the test for the empty name, and the loop from
  \<open>pos = 0\<close>.
\<close>

definition DirectoryCreate :: "'w env \<Rightarrow> string \<Rightarrow> 'w \<Rightarrow> (exn + unit) \<times> 'w" where
  "DirectoryCreate E dirName w =
     (let activeSync = activeSync_path dirName in
      if dirName \<noteq> [] then DirectoryCreate_loop E activeSync dirName (Pos 0) w
      else (Inr (), w))"

section \<open>tools.cpp: FileExists\<close>

definition FileExists :: "'w env \<Rightarrow> string \<Rightarrow> 'w \<Rightarrow> bool \<times> 'w" where
  "FileExists E fileName w =
     (let activeSync = activeSync_path fileName in
      if activeSync then AS_FileExists E fileName w
      else (case ifstream_open E fileName w of
              (file, w') \<Rightarrow> (file \<noteq> None, w')))"

section \<open>istream.cpp: the constructor of CIStream\<close>

text \<open>
  The value of \<open>Type()\<close>, a member of the base class \<open>CStream\<close>, which is
  declared outside these sources: the constructor switches on \<open>TYPE_LOCAL\<close> and
  \<open>TYPE_ACTIVE_SYNC\<close>, and \<open>TYPE_UNKNOWN\<close> stands for every value that reaches
  \<open>default\<close>. The model takes the value as an argument.
\<close>

datatype stream_type = TYPE_LOCAL | TYPE_ACTIVE_SYNC | TYPE_UNKNOWN

definition open_failed_msg :: "string \<Rightarrow> string" where
  "open_failed_msg fileName =
     ''ERROR: Couldn'' @ [CHR 0x27] @ ''t open file '' @ [CHR 0x27] @ fileName @
     [CHR 0x27] @ '' for reading!!!''"

text \<open>
  The case \<open>TYPE_LOCAL\<close>, lines 46 to 63. The result is the exception thrown, or
  the contents of \<open>Buffer()\<close>, which is empty before \<open>stream.rdbuf()\<close> is written
  to it. \<open>dirCurr\<close> is written and read only when \<open>dir\<close> is not empty.
\<close>

definition CIStream_local :: "'w env \<Rightarrow> string \<Rightarrow> 'w \<Rightarrow> (exn + string) \<times> 'w" where
  "CIStream_local E fileName w =
     (case FilePathSplit fileName of
        (dir, file) \<Rightarrow>
          (case (if dir \<noteq> [] then
                   (case GetCurrentDirectory E w of
                      (dirCurr, w0) \<Rightarrow> (dirCurr, SetCurrentDirectory E dir w0))
                 else ([], w)) of
             (dirCurr, w1) \<Rightarrow>
               (case ifstream_open E file w1 of
                  (None, w2) \<Rightarrow> (Inl (runtime_error (open_failed_msg fileName)), w2)
                | (Some bytes, w2) \<Rightarrow>
                    (Inr (text_mode E bytes),
                     if dir \<noteq> [] then SetCurrentDirectory E dirCurr w2 else w2))))"

text \<open>
  The constructor. \<open>FileName()\<close> is the member of \<open>CStream\<close> that holds the
  constructor's argument.
\<close>

definition CIStream ::
  "'w env \<Rightarrow> stream_type \<Rightarrow> string \<Rightarrow> 'w \<Rightarrow> (exn + string) \<times> 'w" where
  "CIStream E streamType fileName w =
     (case streamType of
        TYPE_LOCAL \<Rightarrow> CIStream_local E fileName w
      | TYPE_ACTIVE_SYNC \<Rightarrow> AS_Read E fileName w
      | TYPE_UNKNOWN \<Rightarrow> (Inl (runtime_error ''ERROR: Unknown stream type!!!''), w))"

section \<open>Recording the calls\<close>

text \<open>
  One entry for each call that leaves the source, with its argument and its outcome.
\<close>

datatype call =
    Call_CreateDirectory string "DWORD option"
  | Call_GetCurrentDirectory string
  | Call_SetCurrentDirectory string
  | Call_ifstream string bool
  | Call_AS_DirectoryCreate string "exn option"
  | Call_AS_FileExists string bool
  | Call_AS_Read string bool

text \<open>
  The environment \<open>E\<close> with a log: every operation does what it does in \<open>E\<close> and
  appends its entry. The functions above run in it unchanged, and the log is then the
  sequence of calls they made.
\<close>

definition traced :: "'w env \<Rightarrow> (call list \<times> 'w) env" where
  "traced E =
     \<lparr> CreateDirectory = (\<lambda>p (tr, w).
         case CreateDirectory E p w of (r, w') \<Rightarrow> (r, (tr @ [Call_CreateDirectory p r], w'))),
       GetCurrentDirectory = (\<lambda>(tr, w).
         case GetCurrentDirectory E w of (d, w') \<Rightarrow> (d, (tr @ [Call_GetCurrentDirectory d], w'))),
       SetCurrentDirectory = (\<lambda>p (tr, w).
         (tr @ [Call_SetCurrentDirectory p], SetCurrentDirectory E p w)),
       ifstream_open = (\<lambda>p (tr, w).
         case ifstream_open E p w of (r, w') \<Rightarrow> (r, (tr @ [Call_ifstream p (r \<noteq> None)], w'))),
       text_mode = text_mode E,
       Convert = Convert E,
       AS_DirectoryCreate = (\<lambda>p (tr, w).
         case AS_DirectoryCreate E p w of
           (r, w') \<Rightarrow> (r, (tr @ [Call_AS_DirectoryCreate p r], w'))),
       AS_FileExists = (\<lambda>p (tr, w).
         case AS_FileExists E p w of (r, w') \<Rightarrow> (r, (tr @ [Call_AS_FileExists p r], w'))),
       AS_Read = (\<lambda>p (tr, w).
         case AS_Read E p w of (r, w') \<Rightarrow> (r, (tr @ [Call_AS_Read p (case r of Inl e \<Rightarrow> False | Inr b \<Rightarrow> True)], w'))) \<rparr>"

section \<open>A small environment to run the functions in\<close>

text \<open>
  A world with a working directory, the local directories and files by name, and the
  directories and files of the device. A local file is readable or not; a local or a
  device directory name can be refused.
\<close>

record world =
  cwd :: string
  local_dirs :: "string list"
  local_denied :: "string list"
  local_files :: "(string \<times> bool \<times> string) list"
  device_dirs :: "string list"
  device_denied :: "string list"
  device_files :: "(string \<times> string) list"

text \<open>
  A name with a drive letter or a leading separator is taken as it is, any other name is
  appended to the working directory.
\<close>

definition resolve :: "string \<Rightarrow> string \<Rightarrow> string" where
  "resolve dir name =
     (if char_at name 1 = CHR '':'' \<or> char_at name 0 \<in> set separators then name
      else if dir \<noteq> [] \<and> last dir \<in> set separators then dir @ name
      else dir @ [bslash] @ name)"

text \<open>
  The text mode of the Windows C runtime on input: a carriage return followed by a line
  feed arrives as the line feed alone, and the input ends at the first Ctrl-Z.
\<close>

fun crlf_to_lf :: "string \<Rightarrow> string" where
  "crlf_to_lf (c # d # cs) =
     (if c = CHR 0x0D \<and> d = CHR 0x0A then d # crlf_to_lf cs else c # crlf_to_lf (d # cs))"
| "crlf_to_lf cs = cs"

definition windows_text_mode :: "string \<Rightarrow> string" where
  "windows_text_mode bytes = crlf_to_lf (takeWhile (\<lambda>c. c \<noteq> CHR 0x1A) bytes)"

text \<open>Decimal digits of an error code.\<close>

fun decimal :: "nat \<Rightarrow> string" where
  "decimal n =
     (if n < 10 then [char_of (48 + n)] else decimal (n div 10) @ [char_of (48 + n mod 10)])"

definition ERROR_PATH_NOT_FOUND :: DWORD where
  "ERROR_PATH_NOT_FOUND = 3"

definition ERROR_ACCESS_DENIED :: DWORD where
  "ERROR_ACCESS_DENIED = 5"

definition sim_CreateDirectory :: "string \<Rightarrow> world \<Rightarrow> DWORD option \<times> world" where
  "sim_CreateDirectory p w =
     (if p = [] then (Some ERROR_PATH_NOT_FOUND, w)
      else if p \<in> set (local_dirs w) then (Some ERROR_ALREADY_EXISTS, w)
      else if p \<in> set (local_denied w) then (Some ERROR_ACCESS_DENIED, w)
      else (None, w\<lparr>local_dirs := local_dirs w @ [p]\<rparr>))"

definition sim_SetCurrentDirectory :: "string \<Rightarrow> world \<Rightarrow> world" where
  "sim_SetCurrentDirectory p w =
     (if resolve (cwd w) p \<in> set (local_dirs w) then w\<lparr>cwd := resolve (cwd w) p\<rparr> else w)"

definition sim_ifstream_open :: "string \<Rightarrow> world \<Rightarrow> string option \<times> world" where
  "sim_ifstream_open p w =
     (case map_of (local_files w) (resolve (cwd w) p) of
        Some (readable, bytes) \<Rightarrow> (if readable then Some bytes else None, w)
      | None \<Rightarrow> (None, w))"

definition sim_AS_DirectoryCreate :: "string \<Rightarrow> world \<Rightarrow> exn option \<times> world" where
  "sim_AS_DirectoryCreate p w =
     (if p \<in> set (device_dirs w) then (None, w)
      else if p \<in> set (device_denied w)
      then (Some (runtime_error (''ERROR: Device refused directory '' @ p)), w)
      else (None, w\<lparr>device_dirs := device_dirs w @ [p]\<rparr>))"

definition sim_AS_Read :: "string \<Rightarrow> world \<Rightarrow> (exn + string) \<times> world" where
  "sim_AS_Read p w =
     (case map_of (device_files w) p of
        Some bytes \<Rightarrow> (Inr bytes, w)
      | None \<Rightarrow> (Inl (runtime_error ''device read failed''), w))"

definition sim :: "world env" where
  "sim =
     \<lparr> CreateDirectory = sim_CreateDirectory,
       GetCurrentDirectory = (\<lambda>w. (cwd w, w)),
       SetCurrentDirectory = sim_SetCurrentDirectory,
       ifstream_open = sim_ifstream_open,
       text_mode = windows_text_mode,
       Convert = (\<lambda>e. decimal (unat e)),
       AS_DirectoryCreate = sim_AS_DirectoryCreate,
       AS_FileExists = (\<lambda>p w. (map_of (device_files w) p \<noteq> None, w)),
       AS_Read = sim_AS_Read \<rparr>"

text \<open>A world with nothing in it but the working directory \<open>C:\work\<close>.\<close>

definition world0 :: world where
  "world0 =
     \<lparr> cwd = ''C:'' @ [bslash] @ ''work'',
       local_dirs = [''C:'' @ [bslash] @ ''work''],
       local_denied = [],
       local_files = [],
       device_dirs = [],
       device_denied = [],
       device_files = [] \<rparr>"

section \<open>FilePathSplit and the local read\<close>





text \<open>
  The path \<open>C:\data\cfg\file.txt\<close> splits into \<open>C:\data\cfg\\<close> and
  \<open>file.txt\<close>.
\<close>

definition path_local :: string where
  "path_local = ''C:'' @ [bslash] @ ''data'' @ [bslash] @ ''cfg'' @ [bslash] @ ''file.txt''"

definition dir_local :: string where
  "dir_local = ''C:'' @ [bslash] @ ''data'' @ [bslash] @ ''cfg'' @ [bslash]"

section \<open>The calls of DirectoryCreate\<close>

text \<open>
  The successive values of \<open>subDir\<close> in the loop entered with the given \<open>pos\<close>,
  when no iteration throws: they depend on \<open>dirName\<close> alone.
\<close>

function DirectoryCreate_subDirs :: "string \<Rightarrow> size_t \<Rightarrow> string list" where
  "DirectoryCreate_subDirs dirName npos = []"
| "DirectoryCreate_subDirs dirName (Pos p) =
     (let pos = DirectoryCreate_find dirName p
      in substr0 dirName pos # DirectoryCreate_subDirs dirName (next_pos pos))"
  by pat_completeness auto
termination
proof (relation "measure (\<lambda>(dirName, pos).
         case pos of npos \<Rightarrow> 0 | Pos p \<Rightarrow> Suc (Suc (length dirName) - p))", goal_cases)
  case 1
  show ?case by simp
next
  case (2 dirName p pos)
  then have find: "DirectoryCreate_find dirName p = pos" by simp
  show ?case
  proof (cases pos)
    case npos
    with find show ?thesis by simp
  next
    case (Pos q)
    with find DirectoryCreate_find_PosD [of dirName p q] show ?thesis by simp
  qed
qed

declare DirectoryCreate_subDirs.simps(2) [simp del]

declare DirectoryCreate_loop.simps(2) [simp del]

text \<open>The string a call was given.\<close>

fun call_arg :: "call \<Rightarrow> string" where
  "call_arg (Call_CreateDirectory p r) = p"
| "call_arg (Call_GetCurrentDirectory d) = d"
| "call_arg (Call_SetCurrentDirectory p) = p"
| "call_arg (Call_ifstream p ok) = p"
| "call_arg (Call_AS_DirectoryCreate p r) = p"
| "call_arg (Call_AS_FileExists p b) = p"
| "call_arg (Call_AS_Read p ok) = p"

text \<open>
  A create call of the backend the flag selects: the ActiveSync channel when it is set,
  the local file system when it is not.
\<close>

fun create_call :: "bool \<Rightarrow> call \<Rightarrow> bool" where
  "create_call activeSync (Call_AS_DirectoryCreate p r) = activeSync"
| "create_call activeSync (Call_CreateDirectory p r) = (\<not> activeSync)"
| "create_call activeSync c = False"

text \<open>
  The exception \<open>DirectoryCreate\<close> throws after a create call with this outcome:
  the channel's own, or \<open>EOperationFailed\<close> for a local failure whose error code
  is not \<open>ERROR_ALREADY_EXISTS\<close>; \<open>None\<close> when the walk goes on.
\<close>

fun thrown :: "'w env \<Rightarrow> call \<Rightarrow> exn option" where
  "thrown E (Call_AS_DirectoryCreate p r) = r"
| "thrown E (Call_CreateDirectory p (Some error)) =
     (if error \<noteq> ERROR_ALREADY_EXISTS
      then Some (EOperationFailed (create_failed_msg E p error)) else None)"
| "thrown E c = None"

lemma DirectoryCreate_make_traced:
  assumes "DirectoryCreate_make (traced E) a subDir (tr, w) = (x, (tr', w'))"
  shows "\<exists>c. tr' = tr @ [c] \<and> create_call a c \<and> call_arg c = subDir \<and>
             thrown E c = (case x of Inl e \<Rightarrow> Some e | Inr u \<Rightarrow> None)"
  using assms
  by (auto simp: DirectoryCreate_make_def traced_def create_failed_msg_def
           split: if_splits prod.splits option.splits)

lemma DirectoryCreate_loop_calls:
  "DirectoryCreate_loop (traced E) a dirName pos (tr, w) = (r, (tr', w')) \<Longrightarrow>
   \<exists>new. tr' = tr @ new \<and>
         (\<forall>c\<in>set new. create_call a c) \<and>
         (\<forall>c\<in>set (butlast new). thrown E c = None) \<and>
         map call_arg new = take (length new) (DirectoryCreate_subDirs dirName pos) \<and>
         (case r of
            Inr u \<Rightarrow> length new = length (DirectoryCreate_subDirs dirName pos) \<and>
                     (\<forall>c\<in>set new. thrown E c = None)
          | Inl e \<Rightarrow> new \<noteq> [] \<and> thrown E (last new) = Some e)"
proof (induction dirName pos arbitrary: tr w rule: DirectoryCreate_subDirs.induct)
  case (1 dirName)
  then show ?case by auto
next
  case (2 dirName p)
  define pos where "pos = DirectoryCreate_find dirName p"
  obtain x tr1 w1 where make:
    "DirectoryCreate_make (traced E) a (substr0 dirName pos) (tr, w) = (x, (tr1, w1))"
    by (metis prod.exhaust)
  from DirectoryCreate_make_traced [OF make] obtain c where c:
    "tr1 = tr @ [c]" "create_call a c" "call_arg c = substr0 dirName pos"
    "thrown E c = (case x of Inl e \<Rightarrow> Some e | Inr u \<Rightarrow> None)"
    by blast
  have subDirs: "DirectoryCreate_subDirs dirName (Pos p) =
      substr0 dirName pos # DirectoryCreate_subDirs dirName (next_pos pos)"
    by (simp add: pos_def Let_def DirectoryCreate_subDirs.simps(2))
  show ?case
  proof (cases x)
    case (Inl e)
    with make "2.prems" have "r = Inl e" "tr' = tr1"
      by (simp_all add: DirectoryCreate_loop.simps(2) DirectoryCreate_body_def
            pos_def [symmetric])
    with c Inl subDirs show ?thesis by simp
  next
    case (Inr u)
    with make "2.prems" have rest:
      "DirectoryCreate_loop (traced E) a dirName (next_pos pos) (tr1, w1) = (r, (tr', w'))"
      by (simp add: DirectoryCreate_loop.simps(2) DirectoryCreate_body_def
            pos_def [symmetric])
    from "2.IH" [OF pos_def rest] obtain new where new:
      "tr' = tr1 @ new" "\<forall>c\<in>set new. create_call a c"
      "\<forall>c\<in>set (butlast new). thrown E c = None"
      "map call_arg new =
         take (length new) (DirectoryCreate_subDirs dirName (next_pos pos))"
      "case r of
         Inr u \<Rightarrow> length new = length (DirectoryCreate_subDirs dirName (next_pos pos)) \<and>
                  (\<forall>c\<in>set new. thrown E c = None)
       | Inl e \<Rightarrow> new \<noteq> [] \<and> thrown E (last new) = Some e"
      by blast
    have none: "thrown E c = None" using c(4) Inr by simp
    have "tr' = tr @ (c # new)" using new(1) c(1) by simp
    moreover have "\<forall>d\<in>set (c # new). create_call a d" using new(2) c(2) by simp
    moreover have "\<forall>d\<in>set (butlast (c # new)). thrown E d = None"
      using new(3) none by (cases new) simp_all
    moreover have "map call_arg (c # new) =
        take (length (c # new)) (DirectoryCreate_subDirs dirName (Pos p))"
      using new(4) c(3) subDirs by simp
    moreover have "case r of
         Inr u \<Rightarrow> length (c # new) = length (DirectoryCreate_subDirs dirName (Pos p)) \<and>
                  (\<forall>d\<in>set (c # new). thrown E d = None)
       | Inl e \<Rightarrow> c # new \<noteq> [] \<and> thrown E (last (c # new)) = Some e"
      using new(5) none subDirs by (cases r) auto
    ultimately show ?thesis by blast
  qed
qed

text \<open>
  The values of \<open>subDir\<close> of a whole run of \<open>DirectoryCreate\<close> in which no
  call fails.
\<close>

definition DirectoryCreate_prefixes :: "string \<Rightarrow> string list" where
  "DirectoryCreate_prefixes dirName =
     (if dirName \<noteq> [] then DirectoryCreate_subDirs dirName (Pos 0) else [])"

text \<open>The log of a run of \<open>DirectoryCreate\<close> is what the run appended to it.\<close>

lemma DirectoryCreate_calls:
  "\<exists>new. fst (snd (DirectoryCreate (traced E) dirName (tr, w))) = tr @ new \<and>
         (\<forall>c\<in>set new. create_call (activeSync_path dirName) c) \<and>
         (\<forall>c\<in>set (butlast new). thrown E c = None) \<and>
         map call_arg new = take (length new) (DirectoryCreate_prefixes dirName) \<and>
         (case fst (DirectoryCreate (traced E) dirName (tr, w)) of
            Inr u \<Rightarrow> length new = length (DirectoryCreate_prefixes dirName) \<and>
                     (\<forall>c\<in>set new. thrown E c = None)
          | Inl e \<Rightarrow> new \<noteq> [] \<and> thrown E (last new) = Some e)"
proof (cases "dirName = []")
  case True
  then show ?thesis
    by (simp add: DirectoryCreate_def DirectoryCreate_prefixes_def)
next
  case False
  obtain r tr' w' where run:
    "DirectoryCreate_loop (traced E) (activeSync_path dirName) dirName (Pos 0) (tr, w) =
       (r, (tr', w'))"
    by (metis prod.exhaust)
  have pre: "DirectoryCreate_prefixes dirName = DirectoryCreate_subDirs dirName (Pos 0)"
    using False by (simp add: DirectoryCreate_prefixes_def)
  have whole: "DirectoryCreate (traced E) dirName (tr, w) = (r, (tr', w'))"
    using False run by (simp add: DirectoryCreate_def)
  show ?thesis
    unfolding pre whole using DirectoryCreate_loop_calls [OF run] by simp
qed




lemma first_index_of_None_disjoint:
  "first_index_of s chars = None \<longleftrightarrow> set s \<inter> set chars = {}"
  by (induction s) auto

lemma find_first_of_npos_iff:
  "find_first_of s chars pos = npos \<longleftrightarrow> set (drop pos s) \<inter> set chars = {}"
  by (simp add: find_first_of_def first_index_of_None_disjoint [symmetric]
        split: option.splits)

lemma find_first_of_here:
  "pos < length s \<Longrightarrow> s ! pos \<in> set chars \<Longrightarrow> find_first_of s chars pos = Pos pos"
  by (simp add: find_first_of_def Cons_nth_drop_Suc [symmetric])

lemma activeSync_path_leading_backslash:
  "activeSync_path name \<Longrightarrow> name \<noteq> [] \<and> hd name = bslash"
  by (cases name) (auto simp: activeSync_path_def char_at_def)

text \<open>
  C8. For the empty name \<open>DirectoryCreate\<close> returns without a call to either
  backend. For a name that is not empty and has no separator it makes one call, to the
  local \<open>CreateDirectory\<close>, with the whole name.
\<close>

theorem DirectoryCreate_empty_and_single:
  "DirectoryCreate (traced E) [] (tr, w) = (Inr (), (tr, w)) \<and>
   (dirName \<noteq> [] \<and> set dirName \<inter> set separators = {} \<longrightarrow>
      fst (snd (DirectoryCreate (traced E) dirName (tr, w))) =
        tr @ [Call_CreateDirectory dirName (fst (CreateDirectory E dirName w))])"
proof (intro conjI impI)
  show "DirectoryCreate (traced E) [] (tr, w) = (Inr (), (tr, w))"
    by (simp add: DirectoryCreate_def)
next
  assume a: "dirName \<noteq> [] \<and> set dirName \<inter> set separators = {}"
  then have "find_first_of dirName separators 0 = npos"
    by (simp add: find_first_of_npos_iff)
  then have find: "DirectoryCreate_find dirName 0 = npos"
    by (simp add: DirectoryCreate_find_def)
  have "\<not> activeSync_path dirName"
  proof
    assume "activeSync_path dirName"
    then have "hd dirName = bslash" "dirName \<noteq> []"
      by (simp_all add: activeSync_path_leading_backslash)
    then have "bslash \<in> set dirName" by (metis hd_in_set)
    with a show False by auto
  qed
  with a find show "fst (snd (DirectoryCreate (traced E) dirName (tr, w))) =
      tr @ [Call_CreateDirectory dirName (fst (CreateDirectory E dirName w))]"
    by (auto simp: DirectoryCreate_def DirectoryCreate_loop.simps(2)
          DirectoryCreate_body_def DirectoryCreate_make_def traced_def
          split: prod.splits option.splits sum.splits)
qed

theorem DirectoryCreate_empty_and_single_witness:
  "DirectoryCreate (traced sim) [] ([], world0) = (Inr (), ([], world0)) \<and>
   ''data'' \<noteq> [] \<and> set ''data'' \<inter> set separators = {} \<and>
   fst (snd (DirectoryCreate (traced sim) ''data'' ([], world0))) =
     [] @ [Call_CreateDirectory ''data'' (fst (CreateDirectory sim ''data'' world0))] \<and>
   fst (CreateDirectory sim ''data'' world0) = None"
proof -
  have "''data'' \<noteq> [] \<and> set ''data'' \<inter> set separators = {}"
    by simp
  moreover have "fst (CreateDirectory sim ''data'' world0) = None"
    by (simp add: sim_def sim_CreateDirectory_def world0_def)
  ultimately show ?thesis
    using DirectoryCreate_empty_and_single [of sim "[]" world0 "''data''"]
    by blast
qed

section \<open>The example paths of the specification\<close>

definition path_device :: string where
  "path_device = [bslash] @ ''Storage'' @ [bslash] @ ''logs'' @ [bslash] @ ''out.txt''"

definition path_share :: string where
  "path_share =
     [bslash, bslash] @ ''PC1'' @ [bslash] @ ''share'' @ [bslash] @ ''dir'' @ [bslash] @
     ''file.txt''"


lemma DirectoryCreate_prefixes_path_share:
  "DirectoryCreate_prefixes path_share =
     [[bslash, bslash] @ ''PC1'' @ [bslash] @ ''share'',
      [bslash, bslash] @ ''PC1'' @ [bslash] @ ''share'' @ [bslash] @ ''dir'',
      [bslash, bslash] @ ''PC1'' @ [bslash] @ ''share'' @ [bslash] @ ''dir'' @ [bslash] @
      ''file.txt'']"
  by (simp add: DirectoryCreate_prefixes_def DirectoryCreate_subDirs.simps(2)
        DirectoryCreate_find_def find_first_of_def char_at_def path_share_def)


lemma not_activeSync_path_share: "\<not> activeSync_path path_share"
  by (simp add: activeSync_path_def char_at_def path_share_def)




section \<open>Network paths\<close>

lemma DirectoryCreate_subDirs_elems:
  "x \<in> set (DirectoryCreate_subDirs dirName pos) \<Longrightarrow> pos = Pos p \<Longrightarrow>
   \<exists>n. p \<le> n \<and> x = take n dirName"
proof (induction dirName pos arbitrary: p rule: DirectoryCreate_subDirs.induct)
  case (1 dirName)
  then show ?case by simp
next
  case (2 dirName p0)
  then have p: "p0 = p" by simp
  define f where "f = DirectoryCreate_find dirName p"
  from "2.prems"(1) have mem:
    "x = substr0 dirName f \<or> x \<in> set (DirectoryCreate_subDirs dirName (next_pos f))"
    by (simp add: DirectoryCreate_subDirs.simps(2) p f_def Let_def)
  show ?case
  proof (cases f)
    case npos
    with mem have "x = take (max p (length dirName)) dirName" by simp
    then show ?thesis by (metis max.cobounded1)
  next
    case (Pos q)
    from DirectoryCreate_find_PosD [of dirName p q] Pos
    have q: "p \<le> q" "q < length dirName" by (simp_all add: f_def)
    from mem show ?thesis
    proof
      assume "x = substr0 dirName f"
      with Pos q show ?thesis by auto
    next
      assume "x \<in> set (DirectoryCreate_subDirs dirName (next_pos f))"
      with "2.IH" [of f "Suc q"] Pos p f_def
      obtain n where n: "Suc q \<le> n" "x = take n dirName"
        by auto
      from n(1) q(1) have "p \<le> n" by simp
      with n(2) show ?thesis by blast
    qed
  qed
qed

lemma find_first_of_nposD:
  assumes "find_first_of s chars pos = npos" and "pos \<le> j" and "j < length s"
  shows "s ! j \<notin> set chars"
proof -
  from assms(1) have none: "set (drop pos s) \<inter> set chars = {}"
    by (simp add: find_first_of_npos_iff)
  have "drop pos s ! (j - pos) = s ! j" using assms(2,3) by simp
  moreover have "j - pos < length (drop pos s)" using assms(2,3) by simp
  ultimately have "s ! j \<in> set (drop pos s)" by (metis nth_mem)
  with none show ?thesis by blast
qed

text \<open>
  A path with two leading backslashes in which a separator, at index \<open>m\<close>, follows
  the machine name and a character that is no separator follows that separator (the
  share name is not empty): the first \<open>subDir\<close> ends at the first separator after the
  share name, and every \<open>subDir\<close> is a prefix of the path that holds a character of
  the share name.
\<close>

lemma DirectoryCreate_prefixes_share:
  assumes "char_at dirName 0 = bslash" and "char_at dirName 1 = bslash"
    and "find_first_of dirName separators 2 = Pos m"
    and "Suc m < length dirName" and "dirName ! Suc m \<notin> set separators"
  shows "hd (DirectoryCreate_prefixes dirName) =
           substr0 dirName (find_first_of dirName separators (Suc m))"
    and "\<forall>x\<in>set (DirectoryCreate_prefixes dirName).
           Suc m < length x \<and> take (length x) dirName = x"
    and "\<forall>j. Suc m \<le> j \<and>
             j < length (substr0 dirName (find_first_of dirName separators (Suc m))) \<longrightarrow>
             dirName ! j \<notin> set separators"
    and "substr0 dirName (find_first_of dirName separators (Suc m)) = dirName \<or>
         dirName ! length (substr0 dirName (find_first_of dirName separators (Suc m))) \<in>
           set separators"
proof -
  define f where "f = find_first_of dirName separators (Suc m)"
  from assms(4) have ne: "dirName \<noteq> []" by auto
  with assms(1) have "dirName ! 0 = bslash" by (simp add: char_at_def)
  with ne have "find_first_of dirName separators 0 = Pos 0"
    by (simp add: find_first_of_here)
  with assms(2,3) have find: "DirectoryCreate_find dirName 0 = f"
    by (simp add: DirectoryCreate_find_def f_def)
  with ne have pre: "DirectoryCreate_prefixes dirName =
      substr0 dirName f # DirectoryCreate_subDirs dirName (next_pos f)"
    by (simp add: DirectoryCreate_prefixes_def DirectoryCreate_subDirs.simps(2))
  then show "hd (DirectoryCreate_prefixes dirName) =
      substr0 dirName (find_first_of dirName separators (Suc m))"
    by (simp add: f_def)
  have past: "Suc m < s \<and> s < length dirName \<and> dirName ! s \<in> set separators \<and>
      (\<forall>j. Suc m \<le> j \<and> j < s \<longrightarrow> dirName ! j \<notin> set separators)"
    if "f = Pos s" for s
  proof -
    from that have found: "find_first_of dirName separators (Suc m) = Pos s"
      by (simp add: f_def)
    note at = find_first_of_PosD [OF found]
    have "s \<noteq> Suc m" using at(3) assms(5) by auto
    with at(1) have "Suc m < s" by simp
    with at(2,3,4) show ?thesis by blast
  qed
  show "\<forall>x\<in>set (DirectoryCreate_prefixes dirName).
      Suc m < length x \<and> take (length x) dirName = x"
  proof
    fix x assume "x \<in> set (DirectoryCreate_prefixes dirName)"
    with pre have mem:
      "x = substr0 dirName f \<or> x \<in> set (DirectoryCreate_subDirs dirName (next_pos f))"
      by simp
    have "\<exists>n. Suc m < n \<and> x = take n dirName"
    proof (cases f)
      case npos
      with mem have "x = take (length dirName) dirName" by simp
      with assms(4) show ?thesis by blast
    next
      case (Pos s)
      from past [OF Pos] have s: "Suc m < s" by simp
      from mem show ?thesis
      proof
        assume "x = substr0 dirName f"
        with Pos s show ?thesis by auto
      next
        assume "x \<in> set (DirectoryCreate_subDirs dirName (next_pos f))"
        with DirectoryCreate_subDirs_elems [of x dirName "next_pos f" "Suc s"] Pos
        obtain n where n: "Suc s \<le> n" "x = take n dirName" by auto
        from n(1) s have "Suc m < n" by simp
        with n(2) show ?thesis by blast
      qed
    qed
    then obtain n where n: "Suc m < n" "x = take n dirName" by blast
    with assms(4) show "Suc m < length x \<and> take (length x) dirName = x"
      by (auto simp: min_def)
  qed
  show "\<forall>j. Suc m \<le> j \<and>
      j < length (substr0 dirName (find_first_of dirName separators (Suc m))) \<longrightarrow>
      dirName ! j \<notin> set separators"
  proof (intro allI impI)
    fix j
    assume j: "Suc m \<le> j \<and>
      j < length (substr0 dirName (find_first_of dirName separators (Suc m)))"
    show "dirName ! j \<notin> set separators"
    proof (cases f)
      case npos
      with j have "Suc m \<le> j" "j < length dirName" by (simp_all add: f_def [symmetric])
      with npos show ?thesis
        using find_first_of_nposD [of dirName separators "Suc m" j] by (simp add: f_def)
    next
      case (Pos s)
      with j have "Suc m \<le> j \<and> j < s" by (simp add: f_def [symmetric])
      with past [OF Pos] show ?thesis by blast
    qed
  qed
  show "substr0 dirName (find_first_of dirName separators (Suc m)) = dirName \<or>
      dirName ! length (substr0 dirName (find_first_of dirName separators (Suc m))) \<in>
        set separators"
  proof (cases f)
    case npos
    then show ?thesis by (simp add: f_def [symmetric])
  next
    case (Pos s)
    from past [OF Pos] have "s < length dirName" "dirName ! s \<in> set separators"
      by simp_all
    with Pos show ?thesis by (simp add: f_def [symmetric] min_def)
  qed
qed

text \<open>
  A run on a name that is not empty: its calls are the values of \<open>subDir\<close> in their
  order, as far as the run gets; all of them when the function returns; and when it
  throws, it throws what its last call threw.
\<close>

lemma DirectoryCreate_run:
  assumes "dirName \<noteq> []"
  shows "\<exists>c new. fst (snd (DirectoryCreate (traced E) dirName (tr, w))) = tr @ c # new \<and>
           (\<forall>d\<in>set (c # new). create_call (activeSync_path dirName) d \<and>
               call_arg d \<in> set (DirectoryCreate_prefixes dirName)) \<and>
           call_arg c = hd (DirectoryCreate_prefixes dirName) \<and>
           map call_arg (c # new) =
             take (Suc (length new)) (DirectoryCreate_prefixes dirName) \<and>
           (\<forall>d\<in>set (butlast (c # new)). thrown E d = None) \<and>
           (fst (DirectoryCreate (traced E) dirName (tr, w)) = Inr () \<longrightarrow>
              map call_arg (c # new) = DirectoryCreate_prefixes dirName) \<and>
           (\<forall>e. fst (DirectoryCreate (traced E) dirName (tr, w)) = Inl e \<longrightarrow>
              thrown E (last (c # new)) = Some e)"
proof -
  let ?r = "fst (DirectoryCreate (traced E) dirName (tr, w))"
  from DirectoryCreate_calls [of E dirName tr w] obtain new where new:
    "fst (snd (DirectoryCreate (traced E) dirName (tr, w))) = tr @ new"
    "\<forall>c\<in>set new. create_call (activeSync_path dirName) c"
    "map call_arg new = take (length new) (DirectoryCreate_prefixes dirName)"
    "case ?r of
       Inr u \<Rightarrow> length new = length (DirectoryCreate_prefixes dirName) \<and>
                (\<forall>c\<in>set new. thrown E c = None)
     | Inl e \<Rightarrow> new \<noteq> [] \<and> thrown E (last new) = Some e"
    "\<forall>c\<in>set (butlast new). thrown E c = None"
    by blast
  from assms obtain x xs where pre: "DirectoryCreate_prefixes dirName = x # xs"
    by (auto simp: DirectoryCreate_prefixes_def DirectoryCreate_subDirs.simps(2) Let_def)
  have "new \<noteq> []"
    using new(4) pre by (cases ?r) auto
  then obtain c new' where c: "new = c # new'" by (cases new) auto
  have args: "\<forall>d\<in>set new. call_arg d \<in> set (DirectoryCreate_prefixes dirName)"
  proof
    fix d assume "d \<in> set new"
    then have "call_arg d \<in> set (map call_arg new)" by simp
    with new(3) show "call_arg d \<in> set (DirectoryCreate_prefixes dirName)"
      by (metis in_set_takeD)
  qed
  have first: "call_arg c = hd (DirectoryCreate_prefixes dirName)"
    using new(3) c pre by simp
  have all: "?r = Inr () \<longrightarrow> map call_arg new = DirectoryCreate_prefixes dirName"
  proof
    assume "?r = Inr ()"
    with new(4) have "length new = length (DirectoryCreate_prefixes dirName)" by simp
    with new(3) show "map call_arg new = DirectoryCreate_prefixes dirName" by simp
  qed
  have thrown: "\<forall>e. ?r = Inl e \<longrightarrow> thrown E (last new) = Some e"
    using new(4) by auto
  have both: "\<forall>d\<in>set new. create_call (activeSync_path dirName) d \<and>
      call_arg d \<in> set (DirectoryCreate_prefixes dirName)"
    using new(2) args by simp
  have order: "map call_arg (c # new') =
      take (Suc (length new')) (DirectoryCreate_prefixes dirName)"
    using new(3) c by simp
  from new(1) both first order new(5) all thrown
  show ?thesis
    unfolding c by (intro exI [of _ c] exI [of _ new'] conjI)
qed

text \<open>
  C2, as the code has it. For a path with two leading backslashes in which a separator,
  at index \<open>m\<close>, follows the machine name and a share name that is not empty follows
  that separator, the walk takes the leading separators, the machine name and the share
  name as one prefix. Every create call is a local \<open>CreateDirectory\<close>. The first one
  receives the share root: the path up to the first separator after the share name,
  without that separator (the whole path when there is none). Every argument is a
  prefix of the path that holds a character of the share name, so neither the two
  separators alone nor the machine name, with or without the separator after it, is
  ever passed. The arguments are the values of \<open>subDir\<close> in their order, as far as the
  run gets: all of them when the function returns, and when it throws, it throws what
  its last call threw. For \<open>\\PC1\share\dir\file.txt\<close> the arguments are
  \<open>\\PC1\share\<close>, \<open>\\PC1\share\dir\<close> and the whole path.
\<close>

theorem network_path_creates:
  "(char_at dirName 0 = bslash \<and> char_at dirName 1 = bslash \<and>
    find_first_of dirName separators 2 = Pos m \<and>
    Suc m < length dirName \<and> dirName ! Suc m \<notin> set separators \<longrightarrow>
      (\<exists>c new.
         fst (snd (DirectoryCreate (traced E) dirName (tr, w))) = tr @ c # new \<and>
         call_arg c = substr0 dirName (find_first_of dirName separators (Suc m)) \<and>
         (\<forall>j. Suc m \<le> j \<and> j < length (call_arg c) \<longrightarrow> dirName ! j \<notin> set separators) \<and>
         (call_arg c = dirName \<or> dirName ! length (call_arg c) \<in> set separators) \<and>
         (\<forall>d\<in>set (c # new).
            create_call False d \<and> Suc m < length (call_arg d) \<and>
            take (length (call_arg d)) dirName = call_arg d) \<and>
         map call_arg (c # new) =
           take (Suc (length new)) (DirectoryCreate_prefixes dirName) \<and>
         (\<forall>d\<in>set (butlast (c # new)). thrown E d = None) \<and>
         (fst (DirectoryCreate (traced E) dirName (tr, w)) = Inr () \<longrightarrow>
            map call_arg (c # new) = DirectoryCreate_prefixes dirName) \<and>
         (\<forall>e. fst (DirectoryCreate (traced E) dirName (tr, w)) = Inl e \<longrightarrow>
            thrown E (last (c # new)) = Some e))) \<and>
   (\<exists>c new.
      fst (snd (DirectoryCreate (traced E) path_share (tr, w))) = tr @ c # new \<and>
      (\<forall>d\<in>set (c # new). create_call False d) \<and>
      map call_arg (c # new) =
        take (Suc (length new))
          [[bslash, bslash] @ ''PC1'' @ [bslash] @ ''share'',
           [bslash, bslash] @ ''PC1'' @ [bslash] @ ''share'' @ [bslash] @ ''dir'',
           [bslash, bslash] @ ''PC1'' @ [bslash] @ ''share'' @ [bslash] @ ''dir'' @
           [bslash] @ ''file.txt''] \<and>
      (\<forall>d\<in>set (butlast (c # new)). thrown E d = None) \<and>
      (fst (DirectoryCreate (traced E) path_share (tr, w)) = Inr () \<longrightarrow>
         map call_arg (c # new) =
           [[bslash, bslash] @ ''PC1'' @ [bslash] @ ''share'',
            [bslash, bslash] @ ''PC1'' @ [bslash] @ ''share'' @ [bslash] @ ''dir'',
            [bslash, bslash] @ ''PC1'' @ [bslash] @ ''share'' @ [bslash] @ ''dir'' @
            [bslash] @ ''file.txt'']) \<and>
      (\<forall>e. fst (DirectoryCreate (traced E) path_share (tr, w)) = Inl e \<longrightarrow>
         thrown E (last (c # new)) = Some e))"
proof (intro conjI impI)
  assume a: "char_at dirName 0 = bslash \<and> char_at dirName 1 = bslash \<and>
    find_first_of dirName separators 2 = Pos m \<and>
    Suc m < length dirName \<and> dirName ! Suc m \<notin> set separators"
  then have ne: "dirName \<noteq> []" and local: "\<not> activeSync_path dirName"
    by (auto simp: char_at_def activeSync_path_def)
  from a have hyps: "char_at dirName 0 = bslash" "char_at dirName 1 = bslash"
    "find_first_of dirName separators 2 = Pos m"
    "Suc m < length dirName" "dirName ! Suc m \<notin> set separators"
    by simp_all
  note share = DirectoryCreate_prefixes_share [OF hyps]
  from DirectoryCreate_run [OF ne, of E tr w] obtain c new where run:
    "fst (snd (DirectoryCreate (traced E) dirName (tr, w))) = tr @ c # new"
    "\<forall>d\<in>set (c # new). create_call (activeSync_path dirName) d \<and>
       call_arg d \<in> set (DirectoryCreate_prefixes dirName)"
    "call_arg c = hd (DirectoryCreate_prefixes dirName)"
    "map call_arg (c # new) = take (Suc (length new)) (DirectoryCreate_prefixes dirName)"
    "\<forall>d\<in>set (butlast (c # new)). thrown E d = None"
    "fst (DirectoryCreate (traced E) dirName (tr, w)) = Inr () \<longrightarrow>
       map call_arg (c # new) = DirectoryCreate_prefixes dirName"
    "\<forall>e. fst (DirectoryCreate (traced E) dirName (tr, w)) = Inl e \<longrightarrow>
       thrown E (last (c # new)) = Some e"
    by blast
  have first: "call_arg c = substr0 dirName (find_first_of dirName separators (Suc m))"
    using run(3) share(1) by simp
  have inside: "\<forall>j. Suc m \<le> j \<and> j < length (call_arg c) \<longrightarrow>
      dirName ! j \<notin> set separators"
    unfolding first by (rule share(3))
  have stop: "call_arg c = dirName \<or> dirName ! length (call_arg c) \<in> set separators"
    unfolding first by (rule share(4))
  have each: "\<forall>d\<in>set (c # new). create_call False d \<and> Suc m < length (call_arg d) \<and>
      take (length (call_arg d)) dirName = call_arg d"
    using run(2) share(2) local by auto
  from run(1) first inside stop each run(4,5,6,7)
  show "\<exists>c new.
      fst (snd (DirectoryCreate (traced E) dirName (tr, w))) = tr @ c # new \<and>
      call_arg c = substr0 dirName (find_first_of dirName separators (Suc m)) \<and>
      (\<forall>j. Suc m \<le> j \<and> j < length (call_arg c) \<longrightarrow> dirName ! j \<notin> set separators) \<and>
      (call_arg c = dirName \<or> dirName ! length (call_arg c) \<in> set separators) \<and>
      (\<forall>d\<in>set (c # new).
         create_call False d \<and> Suc m < length (call_arg d) \<and>
         take (length (call_arg d)) dirName = call_arg d) \<and>
      map call_arg (c # new) =
        take (Suc (length new)) (DirectoryCreate_prefixes dirName) \<and>
      (\<forall>d\<in>set (butlast (c # new)). thrown E d = None) \<and>
      (fst (DirectoryCreate (traced E) dirName (tr, w)) = Inr () \<longrightarrow>
         map call_arg (c # new) = DirectoryCreate_prefixes dirName) \<and>
      (\<forall>e. fst (DirectoryCreate (traced E) dirName (tr, w)) = Inl e \<longrightarrow>
         thrown E (last (c # new)) = Some e)"
    by (intro exI [of _ c] exI [of _ new] conjI)
next
  have ne: "path_share \<noteq> []" by (simp add: path_share_def)
  from DirectoryCreate_run [OF ne, of E tr w] obtain c new where run:
    "fst (snd (DirectoryCreate (traced E) path_share (tr, w))) = tr @ c # new"
    "\<forall>d\<in>set (c # new). create_call (activeSync_path path_share) d \<and>
       call_arg d \<in> set (DirectoryCreate_prefixes path_share)"
    "map call_arg (c # new) =
       take (Suc (length new)) (DirectoryCreate_prefixes path_share)"
    "\<forall>d\<in>set (butlast (c # new)). thrown E d = None"
    "fst (DirectoryCreate (traced E) path_share (tr, w)) = Inr () \<longrightarrow>
       map call_arg (c # new) = DirectoryCreate_prefixes path_share"
    "\<forall>e. fst (DirectoryCreate (traced E) path_share (tr, w)) = Inl e \<longrightarrow>
       thrown E (last (c # new)) = Some e"
    by blast
  from run(2) have local: "\<forall>d\<in>set (c # new). create_call False d"
    using not_activeSync_path_share by auto
  from run(1) local run(3,4,5,6)
  show "\<exists>c new.
      fst (snd (DirectoryCreate (traced E) path_share (tr, w))) = tr @ c # new \<and>
      (\<forall>d\<in>set (c # new). create_call False d) \<and>
      map call_arg (c # new) =
        take (Suc (length new))
          [[bslash, bslash] @ ''PC1'' @ [bslash] @ ''share'',
           [bslash, bslash] @ ''PC1'' @ [bslash] @ ''share'' @ [bslash] @ ''dir'',
           [bslash, bslash] @ ''PC1'' @ [bslash] @ ''share'' @ [bslash] @ ''dir'' @
           [bslash] @ ''file.txt''] \<and>
      (\<forall>d\<in>set (butlast (c # new)). thrown E d = None) \<and>
      (fst (DirectoryCreate (traced E) path_share (tr, w)) = Inr () \<longrightarrow>
         map call_arg (c # new) =
           [[bslash, bslash] @ ''PC1'' @ [bslash] @ ''share'',
            [bslash, bslash] @ ''PC1'' @ [bslash] @ ''share'' @ [bslash] @ ''dir'',
            [bslash, bslash] @ ''PC1'' @ [bslash] @ ''share'' @ [bslash] @ ''dir'' @
            [bslash] @ ''file.txt'']) \<and>
      (\<forall>e. fst (DirectoryCreate (traced E) path_share (tr, w)) = Inl e \<longrightarrow>
         thrown E (last (c # new)) = Some e)"
    unfolding DirectoryCreate_prefixes_path_share
    by (intro exI [of _ c] exI [of _ new] conjI)
qed

text \<open>
  The run on \<open>\\PC1\share\dir\file.txt\<close> in the small environment returns, after
  the three calls.
\<close>

theorem network_path_creates_witness:
  "char_at path_share 0 = bslash \<and> char_at path_share 1 = bslash \<and>
   find_first_of path_share separators 2 = Pos 5 \<and>
   Suc 5 < length path_share \<and> path_share ! Suc 5 \<notin> set separators \<and>
   substr0 path_share (find_first_of path_share separators (Suc 5)) =
     [bslash, bslash] @ ''PC1'' @ [bslash] @ ''share'' \<and>
   fst (DirectoryCreate (traced sim) path_share ([], world0)) = Inr () \<and>
   (\<exists>c new.
      fst (snd (DirectoryCreate (traced sim) path_share ([], world0))) = [] @ c # new \<and>
      call_arg c = substr0 path_share (find_first_of path_share separators (Suc 5)) \<and>
      (\<forall>d\<in>set (c # new).
         create_call False d \<and> Suc 5 < length (call_arg d) \<and>
         take (length (call_arg d)) path_share = call_arg d) \<and>
      map call_arg (c # new) = DirectoryCreate_prefixes path_share) \<and>
   DirectoryCreate_prefixes path_share =
     [[bslash, bslash] @ ''PC1'' @ [bslash] @ ''share'',
      [bslash, bslash] @ ''PC1'' @ [bslash] @ ''share'' @ [bslash] @ ''dir'',
      [bslash, bslash] @ ''PC1'' @ [bslash] @ ''share'' @ [bslash] @ ''dir'' @
      [bslash] @ ''file.txt'']"
proof -
  have hyps: "char_at path_share 0 = bslash \<and> char_at path_share 1 = bslash \<and>
      find_first_of path_share separators 2 = Pos 5 \<and>
      Suc 5 < length path_share \<and> path_share ! Suc 5 \<notin> set separators"
    by (simp add: char_at_def find_first_of_def path_share_def)
  have root: "substr0 path_share (find_first_of path_share separators (Suc 5)) =
      [bslash, bslash] @ ''PC1'' @ [bslash] @ ''share''"
    by (simp add: find_first_of_def path_share_def)
  have returns: "fst (DirectoryCreate (traced sim) path_share ([], world0)) = Inr ()"
    by code_simp
  from network_path_creates [of path_share 5 sim "[]" world0, THEN conjunct1] hyps
  obtain c new where run:
    "fst (snd (DirectoryCreate (traced sim) path_share ([], world0))) = [] @ c # new"
    "call_arg c = substr0 path_share (find_first_of path_share separators (Suc 5))"
    "\<forall>d\<in>set (c # new).
       create_call False d \<and> Suc 5 < length (call_arg d) \<and>
       take (length (call_arg d)) path_share = call_arg d"
    "fst (DirectoryCreate (traced sim) path_share ([], world0)) = Inr () \<longrightarrow>
       map call_arg (c # new) = DirectoryCreate_prefixes path_share"
    by blast
  from run(4) returns have "map call_arg (c # new) = DirectoryCreate_prefixes path_share"
    by (rule mp)
  with run(1,2,3) have "\<exists>c new.
      fst (snd (DirectoryCreate (traced sim) path_share ([], world0))) = [] @ c # new \<and>
      call_arg c = substr0 path_share (find_first_of path_share separators (Suc 5)) \<and>
      (\<forall>d\<in>set (c # new).
         create_call False d \<and> Suc 5 < length (call_arg d) \<and>
         take (length (call_arg d)) path_share = call_arg d) \<and>
      map call_arg (c # new) = DirectoryCreate_prefixes path_share"
    by (intro exI [of _ c] exI [of _ new] conjI)
  with hyps root returns DirectoryCreate_prefixes_path_share show ?thesis
    by (elim conjE, intro conjI) assumption+
qed

text \<open>
  The first create call of the run receives the share root \<open>\\PC1\share\<close>, not
  \<open>\\PC1\share\dir\\<close>.
\<close>

theorem network_path_creates_counterexample:
  "map call_arg (fst (snd (DirectoryCreate (traced sim) path_share ([], world0)))) =
     [[bslash, bslash] @ ''PC1'' @ [bslash] @ ''share'',
      [bslash, bslash] @ ''PC1'' @ [bslash] @ ''share'' @ [bslash] @ ''dir'',
      [bslash, bslash] @ ''PC1'' @ [bslash] @ ''share'' @ [bslash] @ ''dir'' @
      [bslash] @ ''file.txt''] \<and>
   hd (map call_arg (fst (snd (DirectoryCreate (traced sim) path_share ([], world0))))) \<noteq>
     [bslash, bslash] @ ''PC1'' @ [bslash] @ ''share'' @ [bslash] @ ''dir'' @ [bslash]"
  by code_simp

section \<open>The choice of the backend\<close>

text \<open>
  C6. \<open>FileExists\<close> returns a truth value in every case, after one call: for a name
  that selects the ActiveSync channel the call is the channel's \<open>FileExists\<close> and
  the result is its answer; for every other name the call is the opening of the name for
  reading and the result is whether the stream is open, so a file that is absent and a
  file that cannot be read both give \<open>False\<close>.
\<close>

theorem FileExists_result:
  "FileExists (traced E) fileName (tr, w) =
     (if activeSync_path fileName
      then (case AS_FileExists E fileName w of
              (b, w') \<Rightarrow> (b, (tr @ [Call_AS_FileExists fileName b], w')))
      else (case ifstream_open E fileName w of
              (r, w') \<Rightarrow> (r \<noteq> None, (tr @ [Call_ifstream fileName (r \<noteq> None)], w')))) \<and>
   fst (FileExists (traced E) fileName (tr, w)) = fst (FileExists E fileName w) \<and>
   (activeSync_path fileName \<longleftrightarrow>
      (\<exists>c rest. fileName = bslash # c # rest \<and> c \<noteq> bslash \<and> rest \<noteq> []))"
proof (intro conjI)
  show "FileExists (traced E) fileName (tr, w) =
     (if activeSync_path fileName
      then (case AS_FileExists E fileName w of
              (b, w') \<Rightarrow> (b, (tr @ [Call_AS_FileExists fileName b], w')))
      else (case ifstream_open E fileName w of
              (r, w') \<Rightarrow> (r \<noteq> None, (tr @ [Call_ifstream fileName (r \<noteq> None)], w'))))"
    by (simp add: FileExists_def traced_def split: prod.splits)
  show "fst (FileExists (traced E) fileName (tr, w)) = fst (FileExists E fileName w)"
    by (simp add: FileExists_def traced_def split: prod.splits)
  show "activeSync_path fileName \<longleftrightarrow>
      (\<exists>c rest. fileName = bslash # c # rest \<and> c \<noteq> bslash \<and> rest \<noteq> [])"
  proof
    assume "activeSync_path fileName"
    then have long: "length fileName > 2" and first: "fileName ! 0 = bslash"
      and second: "fileName ! 1 \<noteq> bslash"
      by (auto simp: activeSync_path_def char_at_def split: if_splits)
    from long obtain a c rest where shape: "fileName = a # c # rest"
      by (cases fileName; cases "tl fileName") auto
    with long first second show
      "\<exists>c rest. fileName = bslash # c # rest \<and> c \<noteq> bslash \<and> rest \<noteq> []"
      by auto
  next
    assume "\<exists>c rest. fileName = bslash # c # rest \<and> c \<noteq> bslash \<and> rest \<noteq> []"
    then show "activeSync_path fileName"
      by (auto simp: activeSync_path_def char_at_def)
  qed
qed

text \<open>
  A world with a readable file \<open>C:\work\a.txt\<close>, an unreadable file
  \<open>C:\work\b.txt\<close> and a file \<open>\Storage\c.txt\<close> on the device.
\<close>

definition world_files :: world where
  "world_files =
     world0\<lparr>local_files :=
        [(''C:'' @ [bslash] @ ''work'' @ [bslash] @ ''a.txt'', True, ''abc''),
         (''C:'' @ [bslash] @ ''work'' @ [bslash] @ ''b.txt'', False, ''abc'')],
       device_files := [([bslash] @ ''Storage'' @ [bslash] @ ''c.txt'', ''abc'')]\<rparr>"

theorem FileExists_result_witness:
  "FileExists (traced sim) ''a.txt'' ([], world_files) =
     (True, ([Call_ifstream ''a.txt'' True], world_files)) \<and>
   FileExists (traced sim) ''b.txt'' ([], world_files) =
     (False, ([Call_ifstream ''b.txt'' False], world_files)) \<and>
   FileExists (traced sim) ''c.txt'' ([], world_files) =
     (False, ([Call_ifstream ''c.txt'' False], world_files)) \<and>
   FileExists (traced sim) ([bslash] @ ''Storage'' @ [bslash] @ ''c.txt'') ([], world_files) =
     (True,
      ([Call_AS_FileExists ([bslash] @ ''Storage'' @ [bslash] @ ''c.txt'') True],
       world_files))"
proof -
  have "(if activeSync_path ''a.txt''
      then (case AS_FileExists sim ''a.txt'' world_files of
              (b, w') \<Rightarrow> (b, ([] @ [Call_AS_FileExists ''a.txt'' b], w')))
      else (case ifstream_open sim ''a.txt'' world_files of
              (r, w') \<Rightarrow> (r \<noteq> None, ([] @ [Call_ifstream ''a.txt'' (r \<noteq> None)], w')))) =
     (True, ([Call_ifstream ''a.txt'' True], world_files))"
    by code_simp
  moreover have "(if activeSync_path ''b.txt''
      then (case AS_FileExists sim ''b.txt'' world_files of
              (b, w') \<Rightarrow> (b, ([] @ [Call_AS_FileExists ''b.txt'' b], w')))
      else (case ifstream_open sim ''b.txt'' world_files of
              (r, w') \<Rightarrow> (r \<noteq> None, ([] @ [Call_ifstream ''b.txt'' (r \<noteq> None)], w')))) =
     (False, ([Call_ifstream ''b.txt'' False], world_files))"
    by code_simp
  moreover have "(if activeSync_path ''c.txt''
      then (case AS_FileExists sim ''c.txt'' world_files of
              (b, w') \<Rightarrow> (b, ([] @ [Call_AS_FileExists ''c.txt'' b], w')))
      else (case ifstream_open sim ''c.txt'' world_files of
              (r, w') \<Rightarrow> (r \<noteq> None, ([] @ [Call_ifstream ''c.txt'' (r \<noteq> None)], w')))) =
     (False, ([Call_ifstream ''c.txt'' False], world_files))"
    by code_simp
  moreover have "(if activeSync_path ([bslash] @ ''Storage'' @ [bslash] @ ''c.txt'')
      then (case AS_FileExists sim ([bslash] @ ''Storage'' @ [bslash] @ ''c.txt'')
                   world_files of
              (b, w') \<Rightarrow>
                (b, ([] @ [Call_AS_FileExists ([bslash] @ ''Storage'' @ [bslash] @ ''c.txt'') b],
                     w')))
      else (case ifstream_open sim ([bslash] @ ''Storage'' @ [bslash] @ ''c.txt'')
                   world_files of
              (r, w') \<Rightarrow>
                (r \<noteq> None,
                 ([] @ [Call_ifstream ([bslash] @ ''Storage'' @ [bslash] @ ''c.txt'')
                          (r \<noteq> None)], w')))) =
     (True,
      ([Call_AS_FileExists ([bslash] @ ''Storage'' @ [bslash] @ ''c.txt'') True],
       world_files))"
    by code_simp
  ultimately show ?thesis
    unfolding FileExists_result [THEN conjunct1] by blast
qed

text \<open>
  C3, as the code has it. Only a backslash selects the channel: for every path longer
  than 2 whose first character is a backslash and whose second character is not a
  backslash, \<open>FileExists\<close> makes one call, to the channel's \<open>FileExists\<close>, and
  returns its answer, and every create call of \<open>DirectoryCreate\<close> goes to the
  channel's \<open>DirectoryCreate\<close>, none to the local file system.
\<close>

theorem backslash_path_is_remote:
  "length path > 2 \<and> path ! 0 = bslash \<and> path ! 1 \<noteq> bslash \<longrightarrow>
     activeSync_path path \<and>
     FileExists (traced E) path (tr, w) =
       (case AS_FileExists E path w of
          (b, w') \<Rightarrow> (b, (tr @ [Call_AS_FileExists path b], w'))) \<and>
     (\<exists>new. fst (snd (DirectoryCreate (traced E) path (tr, w))) = tr @ new \<and>
            (\<forall>c\<in>set new. create_call True c))"
proof
  assume a: "length path > 2 \<and> path ! 0 = bslash \<and> path ! 1 \<noteq> bslash"
  then have remote: "activeSync_path path"
    by (auto simp: activeSync_path_def char_at_def)
  then have "FileExists (traced E) path (tr, w) =
      (case AS_FileExists E path w of
         (b, w') \<Rightarrow> (b, (tr @ [Call_AS_FileExists path b], w')))"
    by (simp add: FileExists_def traced_def split: prod.splits)
  moreover from DirectoryCreate_calls [of E path tr w] remote
  have "\<exists>new. fst (snd (DirectoryCreate (traced E) path (tr, w))) = tr @ new \<and>
      (\<forall>c\<in>set new. create_call True c)"
    by auto
  ultimately show "activeSync_path path \<and>
     FileExists (traced E) path (tr, w) =
       (case AS_FileExists E path w of
          (b, w') \<Rightarrow> (b, (tr @ [Call_AS_FileExists path b], w'))) \<and>
     (\<exists>new. fst (snd (DirectoryCreate (traced E) path (tr, w))) = tr @ new \<and>
            (\<forall>c\<in>set new. create_call True c))"
    using remote by (intro conjI)
qed

theorem backslash_path_is_remote_witness:
  "length path_device > 2 \<and> path_device ! 0 = bslash \<and> path_device ! 1 \<noteq> bslash \<and>
   activeSync_path path_device \<and>
   FileExists (traced sim) path_device ([], world0) =
     (case AS_FileExists sim path_device world0 of
        (b, w') \<Rightarrow> (b, ([] @ [Call_AS_FileExists path_device b], w'))) \<and>
   (\<exists>new. fst (snd (DirectoryCreate (traced sim) path_device ([], world0))) = [] @ new \<and>
          (\<forall>c\<in>set new. create_call True c))"
proof -
  have "length path_device > 2 \<and> path_device ! 0 = bslash \<and> path_device ! 1 \<noteq> bslash"
    by (simp add: path_device_def)
  with backslash_path_is_remote [of path_device sim "[]" world0] show ?thesis
    by blast
qed

text \<open>
  The path \<open>/Storage/out.txt\<close> is longer than 2, starts with a forward slash, and its
  second character is no separator. The device has a file of this name and the local
  file system has none: \<open>FileExists\<close> opens the name locally and answers
  \<open>False\<close>, and \<open>DirectoryCreate\<close> calls the local \<open>CreateDirectory\<close>.
\<close>

definition path_slash :: string where
  "path_slash = ''/Storage/out.txt''"

definition world_slash :: world where
  "world_slash = world0\<lparr>device_files := [(path_slash, ''abc'')]\<rparr>"

theorem backslash_path_is_remote_counterexample:
  "length path_slash > 2 \<and> path_slash ! 0 = fslash \<and> path_slash ! 1 \<notin> set separators \<and>
   \<not> activeSync_path path_slash \<and>
   fst (AS_FileExists sim path_slash world_slash) = True \<and>
   FileExists (traced sim) path_slash ([], world_slash) =
     (False, ([Call_ifstream path_slash False], world_slash)) \<and>
   fst (snd (DirectoryCreate (traced sim) path_slash ([], world_slash))) =
     [Call_CreateDirectory ''/Storage'' None, Call_CreateDirectory ''/Storage/out.txt'' None]"
  by code_simp

section \<open>Termination of the walk\<close>

lemma DirectoryCreate_while_returns:
  "DirectoryCreate_while E activeSync dirName pos w =
     Some (DirectoryCreate_loop E activeSync dirName pos w)"
proof (induction E activeSync dirName pos w rule: DirectoryCreate_loop.induct)
  case (1 E activeSync dirName w)
  show ?case
    by (subst DirectoryCreate_while.simps) simp
next
  case (2 E activeSync dirName p w)
  show ?case
  proof (cases "DirectoryCreate_body E activeSync dirName p w")
    case (Pair x w')
    show ?thesis
    proof (cases x)
      case (Inl e)
      with Pair show ?thesis
        by (subst DirectoryCreate_while.simps) (simp add: DirectoryCreate_loop.simps(2))
    next
      case (Inr pos')
      from "2.IH" [OF Pair [symmetric] Inr]
      have "DirectoryCreate_while E activeSync dirName pos' w' =
          Some (DirectoryCreate_loop E activeSync dirName pos' w')"
        .
      with Pair Inr show ?thesis
        by (subst DirectoryCreate_while.simps) (simp add: DirectoryCreate_loop.simps(2))
    qed
  qed
qed

lemma length_DirectoryCreate_subDirs:
  "length (DirectoryCreate_subDirs dirName pos) \<le>
     (case pos of npos \<Rightarrow> 0 | Pos p \<Rightarrow> Suc (length dirName - p))"
proof (induction dirName pos rule: DirectoryCreate_subDirs.induct)
  case (1 dirName)
  show ?case by simp
next
  case (2 dirName p)
  show ?case
  proof (cases "DirectoryCreate_find dirName p")
    case npos
    then show ?thesis
      by (simp add: DirectoryCreate_subDirs.simps(2))
  next
    case (Pos q)
    from DirectoryCreate_find_PosD [OF Pos] have q: "p \<le> q" "q < length dirName" .
    from "2.IH" [of "Pos q"] Pos
    have "length (DirectoryCreate_subDirs dirName (Pos (Suc q))) \<le>
        Suc (length dirName - Suc q)"
      by simp
    with q Pos show ?thesis
      by (simp add: DirectoryCreate_subDirs.simps(2))
  qed
qed

lemma length_DirectoryCreate_prefixes:
  "length (DirectoryCreate_prefixes dirName) \<le> Suc (length dirName)"
  using length_DirectoryCreate_subDirs [of dirName "Pos 0"]
  by (simp add: DirectoryCreate_prefixes_def)

text \<open>The path \<open>\\PC1\<close>: no separator follows the machine name.\<close>

definition path_machine :: string where
  "path_machine = [bslash, bslash] @ ''PC1''"

text \<open>
  C10. \<open>DirectoryCreate\<close> terminates on every name. The loop, taken with nothing
  assumed about its termination, returns a value from every position in every
  environment. An iteration entered with \<open>pos = p\<close> that leaves \<open>pos\<close> at an index
  \<open>q\<close> has \<open>p < q\<close> and \<open>q\<close> at most the length of the name, so the position
  advances strictly, and a run makes at most one create call more than the name has
  characters. In the network case where no separator follows the machine name, the
  second search returns \<open>npos\<close>, the third starts from \<open>npos + 1 = 0\<close> and finds
  the separator at index 0, and the iteration ends with \<open>pos = 1\<close>.
\<close>

theorem DirectoryCreate_terminates:
  "DirectoryCreate_while E activeSync dirName pos w =
     Some (DirectoryCreate_loop E activeSync dirName pos w) \<and>
   (\<forall>q w'. DirectoryCreate_body E activeSync dirName p w = (Inr (Pos q), w') \<longrightarrow>
      p < q \<and> q \<le> length dirName) \<and>
   (\<exists>new. fst (snd (DirectoryCreate (traced E) dirName (tr, w))) = tr @ new \<and>
          length new \<le> Suc (length dirName)) \<and>
   (char_at dirName 0 \<in> set separators \<and> char_at dirName 1 = bslash \<and>
    find_first_of dirName separators 2 = npos \<longrightarrow>
      DirectoryCreate_find dirName 0 = find_first_of dirName separators (plus1 npos) \<and>
      plus1 npos = 0 \<and>
      DirectoryCreate_find dirName 0 = Pos 0 \<and>
      next_pos (DirectoryCreate_find dirName 0) = Pos 1)"
proof (intro conjI)
  show "DirectoryCreate_while E activeSync dirName pos w =
      Some (DirectoryCreate_loop E activeSync dirName pos w)"
    by (rule DirectoryCreate_while_returns)
next
  show "\<forall>q w'. DirectoryCreate_body E activeSync dirName p w = (Inr (Pos q), w') \<longrightarrow>
      p < q \<and> q \<le> length dirName"
  proof (intro allI impI)
    fix q w'
    assume body: "DirectoryCreate_body E activeSync dirName p w = (Inr (Pos q), w')"
    from DirectoryCreate_body_advances [OF body]
    show "p < q \<and> q \<le> length dirName" by simp
  qed
next
  from DirectoryCreate_calls [of E dirName tr w] obtain new where new:
    "fst (snd (DirectoryCreate (traced E) dirName (tr, w))) = tr @ new"
    "map call_arg new = take (length new) (DirectoryCreate_prefixes dirName)"
    by blast
  have "length (map call_arg new) \<le> length (DirectoryCreate_prefixes dirName)"
    by (subst new(2)) simp
  then have "length new \<le> length (DirectoryCreate_prefixes dirName)"
    by simp
  with length_DirectoryCreate_prefixes [of dirName]
  have "length new \<le> Suc (length dirName)" by simp
  with new(1) show "\<exists>new. fst (snd (DirectoryCreate (traced E) dirName (tr, w))) = tr @ new \<and>
      length new \<le> Suc (length dirName)"
    by blast
next
  show "char_at dirName 0 \<in> set separators \<and> char_at dirName 1 = bslash \<and>
    find_first_of dirName separators 2 = npos \<longrightarrow>
      DirectoryCreate_find dirName 0 = find_first_of dirName separators (plus1 npos) \<and>
      plus1 npos = 0 \<and>
      DirectoryCreate_find dirName 0 = Pos 0 \<and>
      next_pos (DirectoryCreate_find dirName 0) = Pos 1"
  proof
    assume a: "char_at dirName 0 \<in> set separators \<and> char_at dirName 1 = bslash \<and>
      find_first_of dirName separators 2 = npos"
    then have ne: "0 < length dirName" and at: "dirName ! 0 \<in> set separators"
      by (auto simp: char_at_def split: if_splits)
    then have zero: "find_first_of dirName separators 0 = Pos 0"
      by (rule find_first_of_here)
    with a have find: "DirectoryCreate_find dirName 0 =
        find_first_of dirName separators (plus1 npos)"
      by (simp add: DirectoryCreate_find_def)
    with zero have found: "DirectoryCreate_find dirName 0 = Pos 0" by simp
    then have "next_pos (DirectoryCreate_find dirName 0) = Pos 1" by simp
    with find found show "DirectoryCreate_find dirName 0 =
          find_first_of dirName separators (plus1 npos) \<and>
        plus1 npos = 0 \<and>
        DirectoryCreate_find dirName 0 = Pos 0 \<and>
        next_pos (DirectoryCreate_find dirName 0) = Pos 1"
      by (intro conjI) simp_all
  qed
qed

theorem DirectoryCreate_terminates_witness:
  "DirectoryCreate_while sim True path_device (Pos 0) world0 =
     Some (DirectoryCreate_loop sim True path_device (Pos 0) world0) \<and>
   (\<exists>w'. DirectoryCreate_body sim True path_device 0 world0 = (Inr (Pos 9), w')) \<and>
   (0 :: nat) < 9 \<and> 9 \<le> length path_device \<and>
   char_at path_machine 0 \<in> set separators \<and> char_at path_machine 1 = bslash \<and>
   find_first_of path_machine separators 2 = npos \<and>
   DirectoryCreate_find path_machine 0 = Pos 0 \<and>
   next_pos (DirectoryCreate_find path_machine 0) = Pos 1 \<and>
   DirectoryCreate_prefixes path_machine = [[], [bslash], path_machine]"
proof -
  define w9 where "w9 = snd (DirectoryCreate_body sim True path_device 0 world0)"
  have "fst (DirectoryCreate_body sim True path_device 0 world0) = Inr (Pos 9)"
    by code_simp
  then have body: "DirectoryCreate_body sim True path_device 0 world0 = (Inr (Pos 9), w9)"
    by (simp add: w9_def prod_eq_iff)
  have machine: "char_at path_machine 0 \<in> set separators \<and>
      char_at path_machine 1 = bslash \<and> find_first_of path_machine separators 2 = npos"
    by (simp add: char_at_def find_first_of_def path_machine_def)
  have pre: "DirectoryCreate_prefixes path_machine = [[], [bslash], path_machine]"
    by code_simp
  note device = DirectoryCreate_terminates [of sim True path_device "Pos 0" world0 0 "[]"]
  from device have returns: "DirectoryCreate_while sim True path_device (Pos 0) world0 =
      Some (DirectoryCreate_loop sim True path_device (Pos 0) world0)"
    by (rule conjunct1)
  from device have "\<forall>q w'. DirectoryCreate_body sim True path_device 0 world0 =
      (Inr (Pos q), w') \<longrightarrow> 0 < q \<and> q \<le> length path_device"
    by (rule conjunct2 [THEN conjunct1])
  with body have advance: "(0 :: nat) < 9 \<and> 9 \<le> length path_device"
    by (rule_tac allE [of _ 9]) auto
  from DirectoryCreate_terminates [of sim False path_machine npos world0 0 "[]"]
  have "char_at path_machine 0 \<in> set separators \<and> char_at path_machine 1 = bslash \<and>
      find_first_of path_machine separators 2 = npos \<longrightarrow>
      DirectoryCreate_find path_machine 0 =
        find_first_of path_machine separators (plus1 npos) \<and>
      plus1 npos = 0 \<and>
      DirectoryCreate_find path_machine 0 = Pos 0 \<and>
      next_pos (DirectoryCreate_find path_machine 0) = Pos 1"
    by (rule conjunct2 [THEN conjunct2, THEN conjunct2])
  from this machine have "DirectoryCreate_find path_machine 0 =
        find_first_of path_machine separators (plus1 npos) \<and>
      plus1 npos = 0 \<and>
      DirectoryCreate_find path_machine 0 = Pos 0 \<and>
      next_pos (DirectoryCreate_find path_machine 0) = Pos 1"
    by (rule mp)
  then have degenerate: "DirectoryCreate_find path_machine 0 = Pos 0 \<and>
      next_pos (DirectoryCreate_find path_machine 0) = Pos 1"
    by (rule conjunct2 [THEN conjunct2])
  from body have "\<exists>w'. DirectoryCreate_body sim True path_device 0 world0 =
      (Inr (Pos 9), w')"
    by (rule exI)
  with returns advance machine degenerate pre show ?thesis
    by (elim conjE, intro conjI) assumption+
qed

section \<open>Failure and repetition of DirectoryCreate\<close>
































section \<open>The local read of CIStream\<close>

text \<open>
  The world after the directory change of lines 51 to 54: the world itself when
  \<open>dir\<close> is empty.
\<close>

definition entered :: "'w env \<Rightarrow> string \<Rightarrow> 'w \<Rightarrow> 'w" where
  "entered E dir w =
     (if dir \<noteq> [] then SetCurrentDirectory E dir (snd (GetCurrentDirectory E w)) else w)"

lemma CIStream_local_result:
  assumes "FilePathSplit fileName = (dir, file)"
  shows "fst (CIStream E TYPE_LOCAL fileName w) =
           (case fst (ifstream_open E file (entered E dir w)) of
              None \<Rightarrow> Inl (runtime_error (open_failed_msg fileName))
            | Some bytes \<Rightarrow> Inr (text_mode E bytes))"
  using assms
  by (simp add: CIStream_def CIStream_local_def entered_def
        split: prod.splits option.splits)

text \<open>
  When the open fails after a directory change, the run ends with the failed open: the
  log has no second \<open>SetCurrentDirectory\<close>, and the world is the one the open left.
\<close>

lemma CIStream_open_fails:
  assumes "FilePathSplit fileName = (dir, file)" and "dir \<noteq> []"
    and "GetCurrentDirectory E w = (dirCurr, w0)"
    and "ifstream_open E file (SetCurrentDirectory E dir w0) = (None, w2)"
  shows "CIStream (traced E) TYPE_LOCAL fileName (tr, w) =
           (Inl (runtime_error (open_failed_msg fileName)),
            (tr @ [Call_GetCurrentDirectory dirCurr, Call_SetCurrentDirectory dir,
                   Call_ifstream file False],
             w2))"
  using assms
  by (simp add: CIStream_def CIStream_local_def traced_def)

lemma CIStream_open_succeeds:
  assumes "FilePathSplit fileName = (dir, file)" and "dir \<noteq> []"
    and "GetCurrentDirectory E w = (dirCurr, w0)"
    and "ifstream_open E file (SetCurrentDirectory E dir w0) = (Some bytes, w2)"
  shows "CIStream (traced E) TYPE_LOCAL fileName (tr, w) =
           (Inr (text_mode E bytes),
            (tr @ [Call_GetCurrentDirectory dirCurr, Call_SetCurrentDirectory dir,
                   Call_ifstream file True, Call_SetCurrentDirectory dirCurr],
             SetCurrentDirectory E dirCurr w2))"
  using assms
  by (simp add: CIStream_def CIStream_local_def traced_def)

text \<open>
  A world in which the directory \<open>C:\data\cfg\\<close> exists and holds no file, and the
  working directory is \<open>C:\work\<close>.
\<close>

definition world_data :: world where
  "world_data = world0\<lparr>local_dirs := [''C:'' @ [bslash] @ ''work'', dir_local]\<rparr>"

text \<open>
  C1, on the code. The constructor is run on \<open>C:\data\cfg\file.txt\<close>, a local path
  with the directory part \<open>C:\data\cfg\\<close>, in a world where the file is missing. The
  working directory is \<open>C:\work\<close> before the call. The call saves it, changes to
  \<open>C:\data\cfg\\<close>, fails to open \<open>file.txt\<close> and throws: the
  \<open>SetCurrentDirectory(dirCurr)\<close> of line 62 is not reached, and the working
  directory after the call is \<open>C:\data\cfg\\<close>.
\<close>

theorem CIStream_open_failure_leaves_directory:
  "fst (GetCurrentDirectory sim world_data) = ''C:'' @ [bslash] @ ''work'' \<and>
   fst (CIStream (traced sim) TYPE_LOCAL path_local ([], world_data)) =
     Inl (runtime_error (open_failed_msg path_local)) \<and>
   fst (snd (CIStream (traced sim) TYPE_LOCAL path_local ([], world_data))) =
     [Call_GetCurrentDirectory (''C:'' @ [bslash] @ ''work''),
      Call_SetCurrentDirectory dir_local,
      Call_ifstream ''file.txt'' False] \<and>
   fst (GetCurrentDirectory sim
          (snd (snd (CIStream (traced sim) TYPE_LOCAL path_local ([], world_data))))) =
     dir_local \<and>
   dir_local \<noteq> ''C:'' @ [bslash] @ ''work''"
  by code_simp

text \<open>
  C4, as the code has it. The buffer of a local read is what the stream delivers of the
  bytes of the file it opened: the file part of the name, opened after the directory
  change. The constructor does nothing else to them, and the stream is opened without
  \<open>std::ios::binary\<close>, so the buffer equals the bytes of the file exactly when the
  runtime's text mode leaves them as they are. When the open fails the constructor
  throws.
\<close>

theorem CIStream_buffer:
  "FilePathSplit fileName = (dir, file) \<longrightarrow>
     (\<forall>bytes. fst (ifstream_open E file (entered E dir w)) = Some bytes \<longrightarrow>
        fst (CIStream E TYPE_LOCAL fileName w) = Inr (text_mode E bytes) \<and>
        (fst (CIStream E TYPE_LOCAL fileName w) = Inr bytes \<longleftrightarrow> text_mode E bytes = bytes)) \<and>
     (fst (ifstream_open E file (entered E dir w)) = None \<longrightarrow>
        fst (CIStream E TYPE_LOCAL fileName w) =
          Inl (runtime_error (open_failed_msg fileName)))"
proof (intro impI allI conjI)
  assume split: "FilePathSplit fileName = (dir, file)"
  note result = CIStream_local_result [OF split, of E w]
  {
    fix bytes
    assume opened: "fst (ifstream_open E file (entered E dir w)) = Some bytes"
    with result show buffer: "fst (CIStream E TYPE_LOCAL fileName w) = Inr (text_mode E bytes)"
      by simp
    then show "fst (CIStream E TYPE_LOCAL fileName w) = Inr bytes \<longleftrightarrow>
        text_mode E bytes = bytes"
      by simp
  }
  assume "fst (ifstream_open E file (entered E dir w)) = None"
  with result show "fst (CIStream E TYPE_LOCAL fileName w) =
      Inl (runtime_error (open_failed_msg fileName))"
    by simp
qed

text \<open>
  A world in which \<open>C:\data\cfg\file.txt\<close> holds the four bytes \<open>a\<close>, carriage
  return, line feed, \<open>b\<close>.
\<close>

definition world_crlf :: world where
  "world_crlf =
     world_data\<lparr>local_files := [(path_local, True, ''a'' @ [CHR 0x0D, CHR 0x0A] @ ''b'')]\<rparr>"

theorem CIStream_buffer_witness:
  "FilePathSplit ''a.txt'' = ([], ''a.txt'') \<and>
   fst (ifstream_open sim ''a.txt'' (entered sim [] world_files)) = Some ''abc'' \<and>
   text_mode sim ''abc'' = ''abc'' \<and>
   fst (CIStream sim TYPE_LOCAL ''a.txt'' world_files) = Inr ''abc'' \<and>
   FilePathSplit path_local = (dir_local, ''file.txt'') \<and>
   fst (ifstream_open sim ''file.txt'' (entered sim dir_local world_crlf)) =
     Some (''a'' @ [CHR 0x0D, CHR 0x0A] @ ''b'') \<and>
   fst (CIStream sim TYPE_LOCAL path_local world_crlf) =
     Inr (text_mode sim (''a'' @ [CHR 0x0D, CHR 0x0A] @ ''b'')) \<and>
   fst (ifstream_open sim ''file.txt'' (entered sim dir_local world_data)) = None \<and>
   fst (CIStream sim TYPE_LOCAL path_local world_data) =
     Inl (runtime_error (open_failed_msg path_local))"
proof -
  have s1: "FilePathSplit ''a.txt'' = ([], ''a.txt'')"
    by code_simp
  have o1: "fst (ifstream_open sim ''a.txt'' (entered sim [] world_files)) = Some ''abc''"
    by code_simp
  have t1: "text_mode sim ''abc'' = ''abc''"
    by code_simp
  have s2: "FilePathSplit path_local = (dir_local, ''file.txt'')"
    by code_simp
  have o2: "fst (ifstream_open sim ''file.txt'' (entered sim dir_local world_crlf)) =
      Some (''a'' @ [CHR 0x0D, CHR 0x0A] @ ''b'')"
    by code_simp
  have o3: "fst (ifstream_open sim ''file.txt'' (entered sim dir_local world_data)) = None"
    by code_simp
  from CIStream_buffer [of "''a.txt''" "[]" "''a.txt''" sim world_files] s1 o1 t1
  have b1: "fst (CIStream sim TYPE_LOCAL ''a.txt'' world_files) = Inr ''abc''"
    by simp
  from CIStream_buffer [of path_local dir_local "''file.txt''" sim world_crlf] s2 o2
  have b2: "fst (CIStream sim TYPE_LOCAL path_local world_crlf) =
      Inr (text_mode sim (''a'' @ [CHR 0x0D, CHR 0x0A] @ ''b''))"
    by simp
  from CIStream_buffer [of path_local dir_local "''file.txt''" sim world_data] s2 o3
  have b3: "fst (CIStream sim TYPE_LOCAL path_local world_data) =
      Inl (runtime_error (open_failed_msg path_local))"
    by simp
  from s1 o1 t1 b1 s2 o2 b2 o3 b3 show ?thesis
    by (intro conjI)
qed

text \<open>
  The buffer of the read of that file holds three bytes, \<open>a\<close>, line feed, \<open>b\<close>:
  it is not the contents of the file.
\<close>

theorem CIStream_buffer_counterexample:
  "map_of (local_files world_crlf) path_local =
     Some (True, ''a'' @ [CHR 0x0D, CHR 0x0A] @ ''b'') \<and>
   fst (CIStream sim TYPE_LOCAL path_local world_crlf) = Inr (''a'' @ [CHR 0x0A] @ ''b'') \<and>
   fst (CIStream sim TYPE_LOCAL path_local world_crlf) \<noteq>
     Inr (''a'' @ [CHR 0x0D, CHR 0x0A] @ ''b'')"
  by code_simp

section \<open>FilePathSplit and the target of the local read\<close>





end
